theory Spec2Isabelle
  imports Main
begin

section \<open>Python values, exceptions and the log\<close>

text \<open>
  The service of \<^verbatim>\<open>backend_performance_tuning.py\<close> is a handful of Flask handlers
  wrapped by two decorators, \<^verbatim>\<open>performance_metrics\<close> and \<^verbatim>\<open>cache_result\<close>.
  The values that flow through the decorators are Python objects.  The model keeps the
  kinds that matter to the decorators: what the Redis client hands back (\<^verbatim>\<open>None\<close> or
  \<^verbatim>\<open>bytes\<close>), what it is able to store (\<^verbatim>\<open>bytes\<close>, \<^verbatim>\<open>str\<close>, \<^verbatim>\<open>int\<close>) and what
  the handlers of the file return (a Flask response built by \<^verbatim>\<open>jsonify\<close>).
\<close>

datatype json =
    JNull
  | JInt int
  | JStr string
  | JList "json list"
  | JObj "(string \<times> json) list"

datatype pyval =
    PNone
  | PBool bool
  | PInt int
  | PStr string
  | PBytes string
  | PResponse json nat

text \<open>
  Exceptions are values.  The first three are raised by the Redis client: the server
  cannot be reached, the value cannot be encoded for the wire, the server rejects
  the command.  \<open>IntegrityError\<close> comes from the database at commit,
  \<open>BadRequest\<close> from \<^verbatim>\<open>request.json\<close>, \<open>PyTypeError\<close> from a call with the wrong
  number of arguments, and \<open>HandlerError\<close> is whatever a handler body raises by
  itself.
\<close>

datatype exn =
    RedisConnectionError
  | RedisDataError
  | RedisResponseError
  | IntegrityError
  | BadRequest
  | PyTypeError
  | HandlerError string

text \<open>
  The three \<^verbatim>\<open>logging.info\<close> lines of the decorators.  The execution time is the
  difference of two clock readings, kept as an integer so that a negative duration
  could be written down.
\<close>

datatype log_record =
    ExecutionTime string int
  | CacheHit string string
  | CacheMiss string string

datatype redis_command =
    GET string
  | SETEX string nat string

text \<open>Truth value of an object, as \<^verbatim>\<open>if cached_result:\<close> tests it.\<close>

fun truthy :: "pyval \<Rightarrow> bool" where
  "truthy PNone = False"
| "truthy (PBool b) = b"
| "truthy (PInt i) = (i \<noteq> 0)"
| "truthy (PStr s) = (s \<noteq> [])"
| "truthy (PBytes b) = (b \<noteq> [])"
| "truthy (PResponse j c) = True"

section \<open>Printing integers and tuples\<close>

text \<open>
  \<^verbatim>\<open>repr\<close> of a Python \<^verbatim>\<open>int\<close> is its decimal numeral, with a leading minus sign for
  a negative number.
\<close>

fun show_nat :: "nat \<Rightarrow> string" where
  "show_nat n =
     (if n < 10 then [char_of (48 + n)]
      else show_nat (n div 10) @ [char_of (48 + n mod 10)])"

declare show_nat.simps [simp del]

definition show_int :: "int \<Rightarrow> string" where
  "show_int i = (if i < 0 then CHR ''-'' # show_nat (nat (- i)) else show_nat (nat i))"

fun join :: "string \<Rightarrow> string list \<Rightarrow> string" where
  "join sep [] = []"
| "join sep [x] = x"
| "join sep (x # y # ys) = x @ sep @ join sep (y # ys)"

text \<open>
  \<^verbatim>\<open>str\<close> of a tuple: \<^verbatim>\<open>()\<close>, \<^verbatim>\<open>(x,)\<close> for one element, \<^verbatim>\<open>(x, y, z)\<close> otherwise,
  every element printed by \<^verbatim>\<open>repr\<close>.  How an element prints depends on its class,
  so \<open>repr\<close> is a parameter; \<open>show_int\<close> is the instance for integers.
\<close>

definition str_tuple :: "('a \<Rightarrow> string) \<Rightarrow> 'a list \<Rightarrow> string" where
  "str_tuple repr args =
     (case args of
        [x] \<Rightarrow> ''('' @ repr x @ '',)''
      | _ \<Rightarrow> ''('' @ join '', '' (map repr args) @ '')'')"

text \<open>Line 50: \<^verbatim>\<open>cache_key = f"{func.__name__}:{args}"\<close>.\<close>

definition cache_key :: "('a \<Rightarrow> string) \<Rightarrow> string \<Rightarrow> 'a list \<Rightarrow> string" where
  "cache_key repr name args = name @ '':'' @ str_tuple repr args"

text \<open>
  The decorator takes whatever objects the call passes.  Beside the integers, two more
  kinds of argument are modelled.  A dict with integer keys and values is the list of
  its items in insertion order, the order in which \<^verbatim>\<open>repr\<close> prints them, as in
  \<^verbatim>\<open>{1: 2, 3: 4}\<close>.  An object of a user's class is its identity and the string its
  \<^verbatim>\<open>__repr__\<close> returns.  \<open>py_eq\<close> is Python's \<^verbatim>\<open>==\<close>: two dicts are equal when they
  hold the same items, in whatever order; two objects of a class that defines no
  \<^verbatim>\<open>__eq__\<close> are equal when they are the same object.
\<close>

datatype pyarg =
    AInt int
  | ADict "(int \<times> int) list"
  | AObj nat string

fun py_repr :: "pyarg \<Rightarrow> string" where
  "py_repr (AInt i) = show_int i"
| "py_repr (ADict d) =
     ''{'' @ join '', '' (map (\<lambda>(k, v). show_int k @ '': '' @ show_int v) d) @ ''}''"
| "py_repr (AObj i r) = r"

fun py_eq :: "pyarg \<Rightarrow> pyarg \<Rightarrow> bool" where
  "py_eq (AInt i) (AInt j) = (i = j)"
| "py_eq (ADict d) (ADict e) = (set d = set e)"
| "py_eq (AObj i r) (AObj j q) = (i = j \<and> r = q)"
| "py_eq a b = False"

section \<open>The process state\<close>

text \<open>
  One request is served at a time by the model.  The state holds the clock (in
  seconds), the contents of the Redis server (every key with its bytes and the instant
  at which it expires), the instants at which the server can be reached, the log, and
  the application's own world \<open>'w\<close> (database, request, threads).  Two fields only
  observe: \<open>invocations\<close> lists the handler bodies that ran, \<open>commands\<close> the commands
  the server received.
\<close>

record 'w state =
  now :: nat
  store :: "string \<Rightarrow> (string \<times> nat) option"
  reachable :: "nat \<Rightarrow> bool"
  logged :: "log_record list"
  invocations :: "string list"
  commands :: "redis_command list"
  world :: 'w

text \<open>Time passing between two requests.\<close>

definition wait :: "nat \<Rightarrow> 'w state \<Rightarrow> 'w state" where
  "wait d s = s\<lparr>now := now s + d\<rparr>"

section \<open>The Redis client\<close>

text \<open>
  \<^verbatim>\<open>redis = Redis(host='localhost', port=6379)\<close> is the client of an external server;
  neither is part of the repository.  The model follows the client's interface as the
  source uses it.  A command raises \<open>RedisConnectionError\<close> when the server cannot be
  reached.  \<^verbatim>\<open>get\<close> answers \<^verbatim>\<open>None\<close> for a key that is absent or whose time to live has
  run out (the entry need not have been purged), and the stored bytes otherwise.  The
  server still serves a key at the very instant its time to live ends; the key is
  gone once the clock has passed that instant.
  \<^verbatim>\<open>setex\<close> encodes the value first: bytes as they are, a string in UTF-8, an integer
  as its decimal numeral; any other object raises \<open>RedisDataError\<close>.  The server
  rejects a time to live of zero.
\<close>

definition utf8 :: "string \<Rightarrow> string" where
  "utf8 s =
     concat (map (\<lambda>c. if (of_char c :: nat) < 128 then [c]
                       else [char_of (192 + (of_char c :: nat) div 64),
                             char_of (128 + (of_char c :: nat) mod 64)]) s)"

fun redis_encode :: "pyval \<Rightarrow> string option" where
  "redis_encode (PBytes b) = Some b"
| "redis_encode (PStr s) = Some (utf8 s)"
| "redis_encode (PInt i) = Some (show_int i)"
| "redis_encode PNone = None"
| "redis_encode (PBool b) = None"
| "redis_encode (PResponse j c) = None"

definition redis_get :: "string \<Rightarrow> 'w state \<Rightarrow> (exn + pyval) \<times> 'w state" where
  "redis_get key s =
     (if \<not> reachable s (now s) then (Inl RedisConnectionError, s)
      else
        (let s' = s\<lparr>commands := commands s @ [GET key]\<rparr> in
         (case store s key of
            None \<Rightarrow> (Inr PNone, s')
          | Some (v, expires_at) \<Rightarrow>
              if now s \<le> expires_at then (Inr (PBytes v), s') else (Inr PNone, s'))))"

definition redis_setex ::
  "string \<Rightarrow> nat \<Rightarrow> pyval \<Rightarrow> 'w state \<Rightarrow> (exn + pyval) \<times> 'w state" where
  "redis_setex key ttl v s =
     (if \<not> reachable s (now s) then (Inl RedisConnectionError, s)
      else
        (case redis_encode v of
           None \<Rightarrow> (Inl RedisDataError, s)
         | Some b \<Rightarrow>
             (let s' = s\<lparr>commands := commands s @ [SETEX key ttl b]\<rparr> in
              if ttl = 0 then (Inl RedisResponseError, s')
              else (Inr (PBool True), s'\<lparr>store := (store s)(key \<mapsto> (b, now s + ttl))\<rparr>))))"

section \<open>Functions and the two decorators\<close>

text \<open>
  A Python function is its \<^verbatim>\<open>__name__\<close> and what a call does to the state.  A handler
  written with \<^verbatim>\<open>def\<close> is given by its body: from the positional arguments and the
  application's world it yields a result or an exception, the new world, and the
  seconds it took.  \<open>pydef\<close> makes the function of a body; every run of the body is
  noted in \<open>invocations\<close>.
\<close>

record ('a, 'w) pyfunc =
  fname :: string
  fcall :: "'a list \<Rightarrow> 'w state \<Rightarrow> (exn + pyval) \<times> 'w state"

type_synonym ('a, 'w) body = "'a list \<Rightarrow> 'w \<Rightarrow> (exn + pyval) \<times> 'w \<times> nat"

definition pydef :: "string \<Rightarrow> ('a, 'w) body \<Rightarrow> ('a, 'w) pyfunc" where
  "pydef name body =
     \<lparr>fname = name,
      fcall = (\<lambda>args s.
        case body args (world s) of
          (r, w', d) \<Rightarrow>
            (r, s\<lparr>now := now s + d,
                   invocations := invocations s @ [name],
                   world := w'\<rparr>))\<rparr>"

text \<open>
  Lines 34 to 43.  \<^verbatim>\<open>functools.wraps\<close> gives the wrapper the name of the function it
  wraps.  There is no \<^verbatim>\<open>try\<close>: when \<^verbatim>\<open>func\<close> raises, the lines after the call do
  not run.
\<close>

definition performance_metrics :: "('a, 'w) pyfunc \<Rightarrow> ('a, 'w) pyfunc" where
  "performance_metrics func =
     \<lparr>fname = fname func,
      fcall = (\<lambda>args s.
        let start_time = now s in
        (case fcall func args s of
           (Inl e, s1) \<Rightarrow> (Inl e, s1)
         | (Inr result, s1) \<Rightarrow>
             (let end_time = now s1;
                  execution_time = int end_time - int start_time
              in (Inr result,
                  s1\<lparr>logged := logged s1 @ [ExecutionTime (fname func) execution_time]\<rparr>))))\<rparr>"

text \<open>
  Lines 46 to 60.  Every call of the client and the call of \<^verbatim>\<open>func\<close> may raise, and
  nothing catches the exception.
\<close>

definition cache_result ::
  "('a \<Rightarrow> string) \<Rightarrow> nat \<Rightarrow> ('a, 'w) pyfunc \<Rightarrow> ('a, 'w) pyfunc" where
  "cache_result repr timeout func =
     \<lparr>fname = fname func,
      fcall = (\<lambda>args s.
        let key = cache_key repr (fname func) args in
        (case redis_get key s of
          (Inl e, s1) \<Rightarrow> (Inl e, s1)
        | (Inr cached_result, s1) \<Rightarrow>
            if truthy cached_result then
              (Inr cached_result,
               s1\<lparr>logged := logged s1 @ [CacheHit (fname func) (str_tuple repr args)]\<rparr>)
            else
              (let s2 = s1\<lparr>logged := logged s1 @ [CacheMiss (fname func) (str_tuple repr args)]\<rparr> in
               (case fcall func args s2 of
                  (Inl e, s3) \<Rightarrow> (Inl e, s3)
                | (Inr result, s3) \<Rightarrow>
                    (case redis_setex key timeout result s3 of
                       (Inl e, s4) \<Rightarrow> (Inl e, s4)
                     | (Inr ok, s4) \<Rightarrow> (Inr result, s4))))))\<rparr>"


text \<open>
  Whether a key holds an entry that a lookup at the present instant treats as a hit:
  the entry is there, the clock has not passed its expiry, and its bytes are truthy.
\<close>

definition cached :: "'w state \<Rightarrow> string \<Rightarrow> bool" where
  "cached s key =
     (case store s key of
        None \<Rightarrow> False
      | Some (b, expires_at) \<Rightarrow> now s \<le> expires_at \<and> b \<noteq> [])"

text \<open>A function that never sets the clock back.\<close>

definition steady :: "('a, 'w) pyfunc \<Rightarrow> bool" where
  "steady func = (\<forall>args s. now s \<le> now (snd (fcall func args s)))"

section \<open>The application\<close>

text \<open>
  Lines 22 to 31 and 68 to 100.  The world of the application is the JSON body of the
  request being served (\<open>None\<close> when the request carries none), the two tables, the
  threads started so far (target and arguments), and the seconds one round trip to
  the database takes.  A commit checks what the model classes declare: no null in a
  column, unique user names and e-mail addresses, a post's user among the users.
\<close>

record user_row =
  u_id :: int
  u_username :: json
  u_email :: json

record post_row =
  p_id :: int
  p_user_id :: json
  p_content :: json

record app =
  request_json :: "(string \<times> json) list option"
  users :: "user_row list"
  posts :: "post_row list"
  threads :: "(string \<times> json list) list"
  latency :: nat

definition json_get :: "(string \<times> json) list \<Rightarrow> string \<Rightarrow> json" where
  "json_get d k = (case map_of d k of None \<Rightarrow> JNull | Some v \<Rightarrow> v)"

definition next_id :: "int list \<Rightarrow> int" where
  "next_id ids = 1 + fold max ids 0"

definition commit_user :: "json \<Rightarrow> json \<Rightarrow> app \<Rightarrow> exn + app" where
  "commit_user username email w =
     (if username = JNull \<or> email = JNull
         \<or> username \<in> set (map u_username (users w))
         \<or> email \<in> set (map u_email (users w))
      then Inl IntegrityError
      else Inr (w\<lparr>users := users w @
                  [\<lparr>u_id = next_id (map u_id (users w)),
                    u_username = username, u_email = email\<rparr>]\<rparr>))"

definition commit_post :: "json \<Rightarrow> json \<Rightarrow> app \<Rightarrow> exn + app" where
  "commit_post user_id content w =
     (if user_id = JNull \<or> content = JNull
         \<or> user_id \<notin> set (map (\<lambda>u. JInt (u_id u)) (users w))
      then Inl IntegrityError
      else Inr (w\<lparr>posts := posts w @
                  [\<lparr>p_id = next_id (map p_id (posts w)),
                    p_user_id = user_id, p_content = content\<rparr>]\<rparr>))"

definition get_users_body :: "('a, app) body" where
  "get_users_body args w =
     (if args \<noteq> [] then (Inl PyTypeError, w, 0)
      else
        (Inr (PResponse
               (JList (map (\<lambda>u. JObj [(''id'', JInt (u_id u)),
                                       (''username'', u_username u),
                                       (''email'', u_email u)]) (users w))) 200),
         w, latency w))"

definition get_posts_body :: "('a, app) body" where
  "get_posts_body args w =
     (if args \<noteq> [] then (Inl PyTypeError, w, 0)
      else
        (Inr (PResponse
               (JList (map (\<lambda>p. JObj [(''id'', JInt (p_id p)),
                                       (''user_id'', p_user_id p),
                                       (''content'', p_content p)]) (posts w))) 200),
         w, latency w))"

definition add_user_body :: "('a, app) body" where
  "add_user_body args w =
     (if args \<noteq> [] then (Inl PyTypeError, w, 0)
      else
        (case request_json w of
           None \<Rightarrow> (Inl BadRequest, w, 0)
         | Some d \<Rightarrow>
             (let username = json_get d ''username'';
                  email = json_get d ''email''
              in (case commit_user username email w of
                    Inl e \<Rightarrow> (Inl e, w, latency w)
                  | Inr w1 \<Rightarrow>
                      (Inr (PResponse (JObj [(''message'', JStr ''User added'')]) 201),
                       w1, latency w)))))"

text \<open>
  Line 99 starts the thread after the commit of line 98 has returned; the thread's
  own run is not part of the request.
\<close>

definition add_post_body :: "('a, app) body" where
  "add_post_body args w =
     (if args \<noteq> [] then (Inl PyTypeError, w, 0)
      else
        (case request_json w of
           None \<Rightarrow> (Inl BadRequest, w, 0)
         | Some d \<Rightarrow>
             (let user_id = json_get d ''user_id'';
                  content = json_get d ''content''
              in (case commit_post user_id content w of
                    Inl e \<Rightarrow> (Inl e, w, latency w)
                  | Inr w1 \<Rightarrow>
                      (let w2 = w1\<lparr>threads := threads w1 @ [(''long_running_task'', [user_id])]\<rparr>
                       in (Inr (PResponse (JObj [(''message'', JStr ''Post added'')]) 201),
                           w2, latency w))))))"

text \<open>
  The decorated handlers, as lines 68 to 93 stack the decorators.  The router calls a
  view with no positional argument, so the class of the arguments is of no account
  here; integers are taken.
\<close>

definition get_users :: "(int, app) pyfunc" where
  "get_users = performance_metrics (pydef ''get_users'' get_users_body)"

definition get_posts :: "(int, app) pyfunc" where
  "get_posts =
     performance_metrics (cache_result show_int 120 (pydef ''get_posts'' get_posts_body))"

definition add_user :: "(int, app) pyfunc" where
  "add_user = performance_metrics (pydef ''add_user'' add_user_body)"

definition add_post :: "(int, app) pyfunc" where
  "add_post = performance_metrics (pydef ''add_post'' add_post_body)"

section \<open>Sample handlers and states\<close>

text \<open>
  The handler \<^verbatim>\<open>h(x) = x*2\<close> of the specification's scenarios, taking one second; a
  handler that returns the empty string; a handler that raises.  \<open>cold\<close> is a state
  with an empty cache whose server is up; \<open>outage\<close> has the server down throughout,
  and in \<open>failing\<close> the server goes down after the first second.
\<close>

definition double_body :: "(int, unit) body" where
  "double_body args w =
     (case args of
        [x] \<Rightarrow> (Inr (PInt (x * 2)), w, 1)
      | _ \<Rightarrow> (Inl PyTypeError, w, 0))"

definition blank_body :: "(int, unit) body" where
  "blank_body args w = (Inr (PStr []), w, 1)"

definition boom_body :: "(int, unit) body" where
  "boom_body args w = (Inl (HandlerError ''boom''), w, 1)"

definition cold :: "unit state" where
  "cold = \<lparr>now = 0, store = (\<lambda>k. None), reachable = (\<lambda>t. True), logged = [],
           invocations = [], commands = [], world = ()\<rparr>"

definition outage :: "unit state" where
  "outage = cold\<lparr>reachable := (\<lambda>t. False)\<rparr>"

definition failing :: "unit state" where
  "failing = cold\<lparr>reachable := (\<lambda>t. t < 1)\<rparr>"

text \<open>
  A state of the application: one user, no post, an empty cache, and a request that
  asks to add a post of that user.  In \<open>warm_app\<close> the cache holds an entry under the
  key of \<^verbatim>\<open>get_posts\<close>.
\<close>

definition sample_app :: "app state" where
  "sample_app =
     \<lparr>now = 0, store = (\<lambda>k. None), reachable = (\<lambda>t. True), logged = [],
      invocations = [], commands = [],
      world = \<lparr>request_json = Some [(''user_id'', JInt 1), (''content'', JStr ''hello'')],
                users = [\<lparr>u_id = 1, u_username = JStr ''ann'',
                          u_email = JStr ''ann@example.org''\<rparr>],
                posts = [], threads = [], latency = 1\<rparr>\<rparr>"

definition warm_app :: "app state" where
  "warm_app = sample_app\<lparr>store := (\<lambda>k. if k = ''get_posts:()'' then Some (''[]'', 100) else None)\<rparr>"

section \<open>Hits and misses\<close>

lemma fname_pydef [simp]: "fname (pydef n body) = n"
  by (simp add: pydef_def)

lemma fname_cache_result [simp]: "fname (cache_result repr T f) = fname f"
  by (simp add: cache_result_def)

lemma fname_performance_metrics [simp]: "fname (performance_metrics f) = fname f"
  by (simp add: performance_metrics_def)

lemma fcall_pydef:
  "body args (world s) = (r, w', d) \<Longrightarrow>
   fcall (pydef n body) args s =
     (r, s\<lparr>now := now s + d, invocations := invocations s @ [n], world := w'\<rparr>)"
  by (simp add: pydef_def)

lemma redis_get_down:
  "\<not> reachable s (now s) \<Longrightarrow> redis_get key s = (Inl RedisConnectionError, s)"
  by (simp add: redis_get_def)

lemma redis_get_hit:
  "reachable s (now s) \<Longrightarrow> store s key = Some (b, e) \<Longrightarrow> now s \<le> e \<Longrightarrow>
   redis_get key s = (Inr (PBytes b), s\<lparr>commands := commands s @ [GET key]\<rparr>)"
  by (simp add: redis_get_def)

lemma redis_get_miss:
  "reachable s (now s) \<Longrightarrow> \<not> cached s key \<Longrightarrow>
   \<exists>v. redis_get key s = (Inr v, s\<lparr>commands := commands s @ [GET key]\<rparr>) \<and> \<not> truthy v"
  by (auto simp add: redis_get_def cached_def Let_def split: option.splits)

lemma cache_result_down:
  "\<not> reachable s (now s) \<Longrightarrow>
   fcall (cache_result repr T f) args s = (Inl RedisConnectionError, s)"
  by (simp add: cache_result_def redis_get_down)

lemma cache_result_hit:
  assumes "reachable s (now s)" and "store s (cache_key repr (fname f) args) = Some (b, e)"
    and "now s \<le> e" and "b \<noteq> []"
  shows "fcall (cache_result repr T f) args s =
     (Inr (PBytes b),
      s\<lparr>commands := commands s @ [GET (cache_key repr (fname f) args)],
        logged := logged s @ [CacheHit (fname f) (str_tuple repr args)]\<rparr>)"
  using assms by (simp add: cache_result_def redis_get_hit Let_def)

lemma cache_result_miss:
  assumes "reachable s (now s)" and "\<not> cached s (cache_key repr (fname f) args)"
  shows "fcall (cache_result repr T f) args s =
     (case fcall f args
             (s\<lparr>commands := commands s @ [GET (cache_key repr (fname f) args)],
                logged := logged s @ [CacheMiss (fname f) (str_tuple repr args)]\<rparr>) of
        (Inl e, s3) \<Rightarrow> (Inl e, s3)
      | (Inr result, s3) \<Rightarrow>
          (case redis_setex (cache_key repr (fname f) args) T result s3 of
             (Inl e, s4) \<Rightarrow> (Inl e, s4)
           | (Inr ok, s4) \<Rightarrow> (Inr result, s4)))"
proof -
  obtain v where "redis_get (cache_key repr (fname f) args) s =
      (Inr v, s\<lparr>commands := commands s @ [GET (cache_key repr (fname f) args)]\<rparr>)"
    and "\<not> truthy v"
    using redis_get_miss [OF assms] by blast
  then show ?thesis
    by (simp add: cache_result_def Let_def)
qed


lemma redis_setex_frame [simp]:
  "now (snd (redis_setex key T v s)) = now s"
  "invocations (snd (redis_setex key T v s)) = invocations s"
  "logged (snd (redis_setex key T v s)) = logged s"
  "world (snd (redis_setex key T v s)) = world s"
  "reachable (snd (redis_setex key T v s)) = reachable s"
  by (simp_all add: redis_setex_def Let_def split: option.splits)

lemma redis_setex_ok:
  "reachable s (now s) \<Longrightarrow> redis_encode v = Some b \<Longrightarrow> 0 < T \<Longrightarrow>
   redis_setex key T v s =
     (Inr (PBool True),
      s\<lparr>commands := commands s @ [SETEX key T b],
        store := (store s)(key \<mapsto> (b, now s + T))\<rparr>)"
  by (simp add: redis_setex_def Let_def)

lemma redis_setex_Inr:
  "redis_setex key T v s = (Inr ok, s') \<Longrightarrow>
   \<exists>b. redis_encode v = Some b \<and> 0 < T \<and> reachable s (now s) \<and>
       s' = s\<lparr>commands := commands s @ [SETEX key T b],
               store := (store s)(key \<mapsto> (b, now s + T))\<rparr>"
  by (auto simp add: redis_setex_def Let_def split: option.splits if_splits)

lemma redis_setex_Inl:
  "redis_setex key T v s = (Inl e, s') \<Longrightarrow> store s' = store s"
  by (auto simp add: redis_setex_def Let_def split: option.splits if_splits)

lemma cached_later:
  "\<not> cached s key \<Longrightarrow> store s' = store s \<Longrightarrow> now s \<le> now s' \<Longrightarrow> \<not> cached s' key"
  by (auto simp add: cached_def split: option.splits)

text \<open>What a miss does, for a handler given by its body.\<close>

lemma cache_result_miss_pydef:
  assumes "reachable s (now s)" and "\<not> cached s (cache_key repr n args)"
    and "body args (world s) = (r, w', d)"
  shows "fcall (cache_result repr T (pydef n body)) args s =
     (case r of
        Inl e \<Rightarrow>
          (Inl e,
           s\<lparr>commands := commands s @ [GET (cache_key repr n args)],
             logged := logged s @ [CacheMiss n (str_tuple repr args)],
             now := now s + d, invocations := invocations s @ [n], world := w'\<rparr>)
      | Inr v \<Rightarrow>
          (case redis_setex (cache_key repr n args) T v
                  (s\<lparr>commands := commands s @ [GET (cache_key repr n args)],
                     logged := logged s @ [CacheMiss n (str_tuple repr args)],
                     now := now s + d, invocations := invocations s @ [n],
                     world := w'\<rparr>) of
             (Inl e, s4) \<Rightarrow> (Inl e, s4)
           | (Inr ok, s4) \<Rightarrow> (Inr v, s4)))"
  using assms cache_result_miss [of s repr "pydef n body" args T]
  by (simp add: fcall_pydef split: sum.splits)

lemma snd_after_setex [simp]:
  "snd (case p of (Inl e, s4) \<Rightarrow> (Inl e, s4) | (Inr ok, s4) \<Rightarrow> (Inr v, s4)) = snd p"
  by (cases p) (simp split: sum.splits)

lemma miss_invocations:
  assumes "reachable s (now s)" and "\<not> cached s (cache_key repr n args)"
  shows "invocations (snd (fcall (cache_result repr T (pydef n body)) args s))
         = invocations s @ [n]"
proof -
  obtain r w' d where b: "body args (world s) = (r, w', d)"
    by (cases "body args (world s)") auto
  note eq = cache_result_miss_pydef [where body = body and T = T, OF assms b]
  show ?thesis
  proof (cases r)
    case (Inl e)
    then show ?thesis by (simp add: eq)
  next
    case (Inr v)
    let ?s3 = "s\<lparr>commands := commands s @ [GET (cache_key repr n args)],
                 logged := logged s @ [CacheMiss n (str_tuple repr args)],
                 now := now s + d, invocations := invocations s @ [n], world := w'\<rparr>"
    show ?thesis
      by (simp add: eq Inr)
  qed
qed


lemma wait_simps [simp]:
  "now (wait d s) = now s + d"
  "store (wait d s) = store s"
  "reachable (wait d s) = reachable s"
  "logged (wait d s) = logged s"
  "invocations (wait d s) = invocations s"
  "commands (wait d s) = commands s"
  "world (wait d s) = world s"
  by (simp_all add: wait_def)

text \<open>A call that missed and returned a value has stored it.\<close>

lemma miss_returned:
  assumes first: "fcall (cache_result repr T (pydef n body)) args s = (Inr v, s1)"
    and cold: "\<not> cached s (cache_key repr n args)"
  shows "\<exists>w' d b. reachable s (now s) \<and> body args (world s) = (Inr v, w', d)
      \<and> redis_encode v = Some b \<and> 0 < T \<and> reachable s (now s + d)
      \<and> now s1 = now s + d
      \<and> store s1 = (store s)(cache_key repr n args \<mapsto> (b, now s + d + T))
      \<and> reachable s1 = reachable s
      \<and> logged s1 = logged s @ [CacheMiss n (str_tuple repr args)]
      \<and> invocations s1 = invocations s @ [n]
      \<and> commands s1 = commands s @ [GET (cache_key repr n args),
                                       SETEX (cache_key repr n args) T b]
      \<and> world s1 = w'"
proof -
  have up: "reachable s (now s)"
    using first by (auto simp add: cache_result_down intro: ccontr)
  obtain r w' d where b: "body args (world s) = (r, w', d)"
    by (cases "body args (world s)") auto
  note eq = cache_result_miss_pydef [where body = body and T = T, OF up cold b]
  let ?s3 = "s\<lparr>commands := commands s @ [GET (cache_key repr n args)],
               logged := logged s @ [CacheMiss n (str_tuple repr args)],
               now := now s + d, invocations := invocations s @ [n], world := w'\<rparr>"
  from first eq have r: "r = Inr v"
    by (cases r) (auto split: prod.splits sum.splits)
  with first eq obtain ok where "redis_setex (cache_key repr n args) T v ?s3 = (Inr ok, s1)"
    by (auto split: prod.splits sum.splits)
  from redis_setex_Inr [OF this] b r up show ?thesis
    by auto
qed


section \<open>Two calls within the time to live\<close>

text \<open>
  Claim C1, as the code has it.  Take a handler given by its body, and a first call of
  the cached handler that misses and returns \<open>v\<close>.  Let \<open>b\<close> be the bytes the client
  stores for \<open>v\<close>, and let them be non-empty.  A second call with the same arguments,
  fewer than \<open>T\<close> seconds after the value was stored and with the server up, is a
  hit: the body has run once in all, the second call runs nothing of the handler
  (its world is untouched), logs the hit and returns the stored bytes \<open>b\<close>.  What it
  returns is the first call's result exactly when that result is the byte string
  \<open>b\<close> itself.
\<close>

theorem C1_second_call_is_a_hit:
  assumes first: "fcall (cache_result repr T (pydef n body)) args s = (Inr v, s1)"
    and cold: "\<not> cached s (cache_key repr n args)"
    and enc: "redis_encode v = Some b"
    and nonempty: "b \<noteq> []"
    and within: "w < T"
    and up: "reachable s1 (now s1 + w)"
  shows "invocations s1 = invocations s @ [n]
    \<and> fst (fcall (cache_result repr T (pydef n body)) args (wait w s1)) = Inr (PBytes b)
    \<and> invocations (snd (fcall (cache_result repr T (pydef n body)) args (wait w s1)))
        = invocations s @ [n]
    \<and> world (snd (fcall (cache_result repr T (pydef n body)) args (wait w s1))) = world s1
    \<and> logged (snd (fcall (cache_result repr T (pydef n body)) args (wait w s1)))
        = logged s1 @ [CacheHit n (str_tuple repr args)]
    \<and> ((fst (fcall (cache_result repr T (pydef n body)) args (wait w s1)) = Inr v)
         = (v = PBytes b))"
proof -
  from miss_returned [OF first cold] enc obtain d where
    now1: "now s1 = now s + d"
    and store1: "store s1 = (store s)(cache_key repr n args \<mapsto> (b, now s + d + T))"
    and inv1: "invocations s1 = invocations s @ [n]"
    by auto
  have "reachable (wait w s1) (now (wait w s1))"
    using up by simp
  moreover have "store (wait w s1) (cache_key repr (fname (pydef n body)) args)
      = Some (b, now s + d + T)"
    using store1 by simp
  moreover have "now (wait w s1) \<le> now s + d + T"
    using now1 within by simp
  ultimately have "fcall (cache_result repr T (pydef n body)) args (wait w s1) =
     (Inr (PBytes b),
      (wait w s1)\<lparr>commands := commands (wait w s1)
                      @ [GET (cache_key repr (fname (pydef n body)) args)],
        logged := logged (wait w s1)
                      @ [CacheHit (fname (pydef n body)) (str_tuple repr args)]\<rparr>)"
    using nonempty by (rule cache_result_hit)
  then show ?thesis
    using inv1 by auto
qed

text \<open>
  The theorem at the specification's scenario: \<^verbatim>\<open>h(x) = x*2\<close>, a time to live of five
  seconds, the argument 3, the second call two seconds after the first.
\<close>

theorem C1_witness:
  "fcall (cache_result show_int 5 (pydef ''h'' double_body)) [3] cold
     = (Inr (PInt 6), snd (fcall (cache_result show_int 5 (pydef ''h'' double_body)) [3] cold))
   \<and> \<not> cached cold (cache_key show_int ''h'' [3])
   \<and> redis_encode (PInt 6) = Some ''6''
   \<and> fst (fcall (cache_result show_int 5 (pydef ''h'' double_body)) [3]
        (wait 2 (snd (fcall (cache_result show_int 5 (pydef ''h'' double_body)) [3] cold))))
      = Inr (PBytes ''6'')
   \<and> invocations (snd (fcall (cache_result show_int 5 (pydef ''h'' double_body)) [3]
        (wait 2 (snd (fcall (cache_result show_int 5 (pydef ''h'' double_body)) [3] cold)))))
      = [''h'']"
proof -
  let ?W = "cache_result show_int 5 (pydef ''h'' double_body)"
  have r: "fst (fcall ?W [3] cold) = Inr (PInt 6)"
    by code_simp
  then have first: "fcall ?W [3] cold = (Inr (PInt 6), snd (fcall ?W [3] cold))"
    by (metis prod.collapse)
  have cold: "\<not> cached cold (cache_key show_int ''h'' [3])"
    by (simp add: cached_def cold_def)
  have enc: "redis_encode (PInt 6) = Some ''6''"
    by code_simp
  have ne: "''6'' \<noteq> []" by simp
  have within: "(2::nat) < 5" by simp
  have up: "reachable (snd (fcall ?W [3] cold)) (now (snd (fcall ?W [3] cold)) + 2)"
    by code_simp
  have inv0: "invocations cold = []"
    by (simp add: cold_def)
  from C1_second_call_is_a_hit [OF first cold enc ne within up] first cold enc inv0
  show ?thesis by simp
qed

text \<open>
  The claim as the specification words it fails twice.  A handler whose result is
  stored as empty bytes (here the empty string) runs again on the second call, two
  seconds into a time to live of five: the test \<^verbatim>\<open>if cached_result:\<close> takes the
  stored value for a miss.  And the second call of \<^verbatim>\<open>h(x) = x*2\<close> at 3 returns the
  bytes \<^verbatim>\<open>b'6'\<close> where the first returned the integer 6.
\<close>

theorem C1_counterexample:
  "invocations (snd (fcall (cache_result show_int 5 (pydef ''h'' blank_body)) [3]
      (wait 2 (snd (fcall (cache_result show_int 5 (pydef ''h'' blank_body)) [3] cold)))))
    = [''h'', ''h'']
   \<and> fst (fcall (cache_result show_int 5 (pydef ''h'' double_body)) [3] cold) = Inr (PInt 6)
   \<and> fst (fcall (cache_result show_int 5 (pydef ''h'' double_body)) [3]
        (wait 2 (snd (fcall (cache_result show_int 5 (pydef ''h'' double_body)) [3] cold))))
      = Inr (PBytes ''6'')"
  by code_simp


section \<open>The server out of reach\<close>

text \<open>
  Claim C2, as the code has it.  Nothing in \<^verbatim>\<open>cache_result\<close> catches what the client
  raises.  When the server cannot be reached at the lookup, the cached handler (around
  any function) raises the connection error and leaves the state as it was: the
  handler is not called.  When the lookup succeeds and misses, the body returns a
  value, and the server cannot be reached by the time the value is to be stored, the
  body has run once, nothing is stored, and the caller gets the connection error in
  place of the value.
\<close>

theorem C2_backend_failure_reaches_the_caller:
  "(\<not> reachable s (now s) \<longrightarrow>
      fcall (cache_result repr T func) args s = (Inl RedisConnectionError, s))
   \<and> (reachable s (now s) \<and> \<not> cached s (cache_key repr n args)
        \<and> body args (world s) = (Inr v, w', d) \<and> \<not> reachable s (now s + d) \<longrightarrow>
      fst (fcall (cache_result repr T (pydef n body)) args s) = Inl RedisConnectionError
      \<and> invocations (snd (fcall (cache_result repr T (pydef n body)) args s))
          = invocations s @ [n]
      \<and> store (snd (fcall (cache_result repr T (pydef n body)) args s)) = store s)"
proof (intro conjI impI)
  assume "\<not> reachable s (now s)"
  then show "fcall (cache_result repr T func) args s = (Inl RedisConnectionError, s)"
    by (rule cache_result_down)
next
  assume a: "reachable s (now s) \<and> \<not> cached s (cache_key repr n args)
        \<and> body args (world s) = (Inr v, w', d) \<and> \<not> reachable s (now s + d)"
  then have eq: "fcall (cache_result repr T (pydef n body)) args s =
      (Inl RedisConnectionError,
       s\<lparr>commands := commands s @ [GET (cache_key repr n args)],
         logged := logged s @ [CacheMiss n (str_tuple repr args)],
         now := now s + d, invocations := invocations s @ [n], world := w'\<rparr>)"
    by (simp add: cache_result_miss_pydef [where body = body and r = "Inr v"] redis_setex_def)
  show "fst (fcall (cache_result repr T (pydef n body)) args s) = Inl RedisConnectionError"
    by (simp add: eq)
  show "invocations (snd (fcall (cache_result repr T (pydef n body)) args s))
          = invocations s @ [n]"
    by (simp add: eq)
  show "store (snd (fcall (cache_result repr T (pydef n body)) args s)) = store s"
    by (simp add: eq)
qed

text \<open>
  Both halves at \<^verbatim>\<open>h(x) = x*2\<close> and the argument 3: with the server down throughout,
  and with a server that goes down while the handler runs.
\<close>

theorem C2_witness:
  "\<not> reachable outage (now outage)
   \<and> fcall (cache_result show_int 5 (pydef ''h'' double_body)) [3] outage
       = (Inl RedisConnectionError, outage)
   \<and> reachable failing (now failing)
   \<and> \<not> cached failing (cache_key show_int ''h'' [3])
   \<and> double_body [3] (world failing) = (Inr (PInt 6), (), 1)
   \<and> \<not> reachable failing (now failing + 1)
   \<and> fst (fcall (cache_result show_int 5 (pydef ''h'' double_body)) [3] failing)
       = Inl RedisConnectionError
   \<and> invocations (snd (fcall (cache_result show_int 5 (pydef ''h'' double_body)) [3] failing))
       = [''h'']"
proof -
  have h1: "\<not> reachable outage (now outage)"
    by (simp add: outage_def cold_def)
  have h2: "reachable failing (now failing) \<and> \<not> cached failing (cache_key show_int ''h'' [3])
      \<and> double_body [3] (world failing) = (Inr (PInt 6), (), 1)
      \<and> \<not> reachable failing (now failing + 1)"
    by (simp add: failing_def cold_def cached_def double_body_def)
  have inv0: "invocations failing = []"
    by (simp add: failing_def cold_def)
  from C2_backend_failure_reaches_the_caller
    [of outage show_int 5 "pydef ''h'' double_body" "[3]" "''h''" double_body "PInt 6" "()" 1]
    C2_backend_failure_reaches_the_caller
    [of failing show_int 5 "pydef ''h'' double_body" "[3]" "''h''" double_body "PInt 6" "()" 1]
    h1 h2 inv0
  show ?thesis by simp
qed

text \<open>
  The claim as worded asks for the handler's result, 6, with the server down.  The
  caller gets the connection error instead, and the handler has not run at all.
\<close>

theorem C2_counterexample:
  "fst (double_body [3] ()) = Inr (PInt 6)
   \<and> fst (fcall (cache_result show_int 5 (pydef ''h'' double_body)) [3] outage)
       = Inl RedisConnectionError
   \<and> invocations (snd (fcall (cache_result show_int 5 (pydef ''h'' double_body)) [3] outage)) = []
   \<and> fst (fcall (cache_result show_int 5 (pydef ''h'' double_body)) [3] failing)
       = Inl RedisConnectionError"
  by code_simp

section \<open>A handler that raises\<close>

text \<open>
  Claim C4.  Let the lookup succeed and miss, and let the handler's body raise \<open>e\<close>.
  Then the cached handler raises the same \<open>e\<close>; the contents of the cache are what
  they were and the server has received the lookup only, no store; the body ran
  once.  A further call, any \<open>w\<close> seconds later with the server still up, runs the
  body again.
\<close>

theorem C4_handler_error_propagates:
  assumes up: "reachable s (now s)"
    and miss: "\<not> cached s (cache_key repr n args)"
    and raises: "body args (world s) = (Inl e, w', d)"
    and later: "reachable s (now s + d + w)"
  shows "fst (fcall (cache_result repr T (pydef n body)) args s) = Inl e
    \<and> store (snd (fcall (cache_result repr T (pydef n body)) args s)) = store s
    \<and> commands (snd (fcall (cache_result repr T (pydef n body)) args s))
        = commands s @ [GET (cache_key repr n args)]
    \<and> invocations (snd (fcall (cache_result repr T (pydef n body)) args s))
        = invocations s @ [n]
    \<and> invocations (snd (fcall (cache_result repr T (pydef n body)) args
          (wait w (snd (fcall (cache_result repr T (pydef n body)) args s)))))
        = invocations s @ [n, n]"
proof -
  let ?s1 = "s\<lparr>commands := commands s @ [GET (cache_key repr n args)],
         logged := logged s @ [CacheMiss n (str_tuple repr args)],
         now := now s + d, invocations := invocations s @ [n], world := w'\<rparr>"
  have eq: "fcall (cache_result repr T (pydef n body)) args s = (Inl e, ?s1)"
    using cache_result_miss_pydef [where body = body and T = T, OF up miss raises] by simp
  have "reachable (wait w ?s1) (now (wait w ?s1))"
    using later by simp
  moreover have "\<not> cached (wait w ?s1) (cache_key repr n args)"
    using miss by (rule cached_later) simp_all
  ultimately have "invocations (snd (fcall (cache_result repr T (pydef n body)) args (wait w ?s1)))
      = invocations (wait w ?s1) @ [n]"
    by (rule miss_invocations)
  then show ?thesis
    by (simp add: eq)
qed

text \<open>The theorem at a handler that always raises, called twice two seconds apart.\<close>

theorem C4_witness:
  "reachable cold (now cold)
   \<and> \<not> cached cold (cache_key show_int ''h'' [3])
   \<and> boom_body [3] (world cold) = (Inl (HandlerError ''boom''), (), 1)
   \<and> fst (fcall (cache_result show_int 5 (pydef ''h'' boom_body)) [3] cold)
       = Inl (HandlerError ''boom'')
   \<and> store (snd (fcall (cache_result show_int 5 (pydef ''h'' boom_body)) [3] cold))
       = store cold
   \<and> invocations (snd (fcall (cache_result show_int 5 (pydef ''h'' boom_body)) [3]
        (wait 2 (snd (fcall (cache_result show_int 5 (pydef ''h'' boom_body)) [3] cold)))))
       = [''h'', ''h'']"
proof -
  have up: "reachable cold (now cold)"
    by (simp add: cold_def)
  have miss: "\<not> cached cold (cache_key show_int ''h'' [3])"
    by (simp add: cold_def cached_def)
  have raises: "boom_body [3] (world cold) = (Inl (HandlerError ''boom''), (), 1)"
    by (simp add: boom_body_def)
  have later: "reachable cold (now cold + 1 + 2)"
    by (simp add: cold_def)
  have inv0: "invocations cold = []"
    by (simp add: cold_def)
  from C4_handler_error_propagates
    [where s = cold and repr = show_int and n = "''h''" and args = "[3]" and body = boom_body
       and e = "HandlerError ''boom''" and w' = "()" and d = 1 and w = 2 and T = 5,
     OF up miss raises later]
    up miss raises inv0
  show ?thesis by simp
qed


section \<open>The timing decorator\<close>

text \<open>
  The clock of the model never runs backwards: a body takes a number of seconds that
  is not negative, and neither decorator touches the clock.  So every function built
  from bodies by the two decorators is steady.
\<close>

lemma steady_pydef: "steady (pydef n body)"
  by (simp add: steady_def pydef_def split: prod.splits)

lemma redis_get_frame [simp]:
  "now (snd (redis_get key s)) = now s"
  "store (snd (redis_get key s)) = store s"
  by (simp_all add: redis_get_def Let_def split: option.splits)

lemma steady_cache_result:
  assumes "steady func"
  shows "steady (cache_result repr T func)"
  unfolding steady_def
proof (intro allI)
  fix args and s :: "'b state"
  let ?key = "cache_key repr (fname func) args"
  obtain g s1 where g: "redis_get ?key s = (g, s1)"
    by (cases "redis_get ?key s") auto
  then have n1: "now s1 = now s"
    by (metis redis_get_frame(1) snd_conv)
  let ?s2 = "s1\<lparr>logged := logged s1 @ [CacheMiss (fname func) (str_tuple repr args)]\<rparr>"
  have "now ?s2 \<le> now (snd (fcall func args ?s2))"
    using assms unfolding steady_def by blast
  then have n3: "now s \<le> now (snd (fcall func args ?s2))"
    using n1 by simp
  show "now s \<le> now (snd (fcall (cache_result repr T func) args s))"
    using g n1 n3
    by (cases "fcall func args ?s2")
      (auto simp add: cache_result_def Let_def split: sum.splits)
qed

lemma steady_performance_metrics:
  assumes "steady func"
  shows "steady (performance_metrics func)"
  unfolding steady_def
proof (intro allI)
  fix args and s :: "'b state"
  have "now s \<le> now (snd (fcall func args s))"
    using assms unfolding steady_def by blast
  then show "now s \<le> now (snd (fcall (performance_metrics func) args s))"
    by (cases "fcall func args s")
      (auto simp add: performance_metrics_def Let_def split: sum.splits)
qed

text \<open>
  Claim C3, as the code has it.  Let \<open>func\<close> be steady, and let its call end in the
  state \<open>s1\<close>.  If it returned a value, \<^verbatim>\<open>performance_metrics\<close> returns the same
  value and appends one record to the log that \<open>func\<close> left, before returning; the
  record's duration is the end reading of the clock minus the start reading, and it
  is not negative.  If \<open>func\<close> raised, the exception goes on to the caller and the
  state is \<open>s1\<close> as it is: no record is written, since the lines that log come after
  the call and no \<^verbatim>\<open>try\<close> surrounds it.
\<close>

theorem C3_timing_record_on_return:
  assumes run: "fcall func args s = (r, s1)"
    and st: "steady func"
  shows "fcall (performance_metrics func) args s =
      (case r of
         Inl e \<Rightarrow> (Inl e, s1)
       | Inr v \<Rightarrow>
           (Inr v,
            s1\<lparr>logged := logged s1
                 @ [ExecutionTime (fname func) (int (now s1) - int (now s))]\<rparr>))
    \<and> 0 \<le> int (now s1) - int (now s)"
proof -
  have "now s \<le> now (snd (fcall func args s))"
    using st unfolding steady_def by blast
  then have "now s \<le> now s1"
    by (simp add: run)
  then show ?thesis
    by (simp add: performance_metrics_def run Let_def split: sum.splits)
qed

text \<open>
  The theorem at \<^verbatim>\<open>h(x) = x*2\<close>, which takes one second, and at a handler that
  raises.
\<close>

theorem C3_witness:
  "steady (pydef ''h'' double_body)
   \<and> fst (fcall (performance_metrics (pydef ''h'' double_body)) [3] cold) = Inr (PInt 6)
   \<and> logged (snd (fcall (performance_metrics (pydef ''h'' double_body)) [3] cold))
       = [ExecutionTime ''h'' 1]
   \<and> fst (fcall (performance_metrics (pydef ''h'' boom_body)) [3] cold)
       = Inl (HandlerError ''boom'')
   \<and> logged (snd (fcall (performance_metrics (pydef ''h'' boom_body)) [3] cold)) = []"
proof -
  have st: "steady (pydef ''h'' double_body)"
    by (rule steady_pydef)
  have run: "fcall (pydef ''h'' double_body) [3] cold =
      (Inr (PInt 6), cold\<lparr>now := 1, invocations := [''h''], world := ()\<rparr>)"
    by (simp add: pydef_def double_body_def cold_def)
  have run': "fcall (pydef ''h'' boom_body) [3] cold =
      (Inl (HandlerError ''boom''), cold\<lparr>now := 1, invocations := [''h''], world := ()\<rparr>)"
    by (simp add: pydef_def boom_body_def cold_def)
  from C3_timing_record_on_return [OF run st]
    C3_timing_record_on_return [OF run' steady_pydef] st
  show ?thesis by (simp add: cold_def)
qed

text \<open>
  The failure path of the claim: the timed handler raises, and the log is empty
  afterwards.
\<close>

theorem C3_counterexample:
  "fst (fcall (performance_metrics (pydef ''h'' boom_body)) [3] cold)
       = Inl (HandlerError ''boom'')
   \<and> logged (snd (fcall (performance_metrics (pydef ''h'' boom_body)) [3] cold)) = []"
  by code_simp


section \<open>Expiry and falsy values\<close>

text \<open>The result of a miss, spelled out.\<close>

lemma miss_result:
  assumes "reachable s (now s)" and "\<not> cached s (cache_key repr n args)"
    and "body args (world s) = (r, w', d)"
  shows "fst (fcall (cache_result repr T (pydef n body)) args s) =
     (case r of
        Inl e \<Rightarrow> Inl e
      | Inr v \<Rightarrow>
          if \<not> reachable s (now s + d) then Inl RedisConnectionError
          else (case redis_encode v of
                  None \<Rightarrow> Inl RedisDataError
                | Some b \<Rightarrow> if T = 0 then Inl RedisResponseError else Inr v))"
  unfolding cache_result_miss_pydef [where body = body and T = T, OF assms]
  by (simp add: redis_setex_def Let_def split: sum.splits option.splits)

lemma miss_stores:
  assumes "reachable s (now s)" and "\<not> cached s (cache_key repr n args)"
    and "body args (world s) = (Inr v, w', d)"
    and "redis_encode v = Some b" and "reachable s (now s + d)" and "0 < T"
  shows "fcall (cache_result repr T (pydef n body)) args s =
     (Inr v,
      s\<lparr>commands := commands s @ [GET (cache_key repr n args)],
        logged := logged s @ [CacheMiss n (str_tuple repr args)],
        now := now s + d, invocations := invocations s @ [n], world := w',
        commands := (commands s @ [GET (cache_key repr n args)])
                      @ [SETEX (cache_key repr n args) T b],
        store := (store s)(cache_key repr n args \<mapsto> (b, now s + d + T))\<rparr>)"
  unfolding cache_result_miss_pydef [where body = body and T = T, OF assms(1-3)]
  using assms(4-6) by (simp add: redis_setex_ok)

lemma hit_invocations:
  assumes "reachable s (now s)" and "cached s (cache_key repr (fname f) args)"
  shows "invocations (snd (fcall (cache_result repr T f) args s)) = invocations s"
proof -
  from assms(2) obtain b e where "store s (cache_key repr (fname f) args) = Some (b, e)"
    and "now s \<le> e" and "b \<noteq> []"
    by (auto simp add: cached_def split: option.splits)
  from cache_result_hit [OF assms(1) this] show ?thesis
    by simp
qed

text \<open>
  Claim C5, as the code has it.  Let a first call miss, return a value and so store
  it with the time to live \<open>T\<close>, and let a further call come more than \<open>T\<close> seconds
  after the value was stored, the server being up.  The entry is still in the store,
  with its expiry behind the clock.  The further call runs the body again, and it returns what it
  would return had the entry been deleted.  If the body returns a value that the
  client can encode, and the server is up when the body is done, the value is
  returned and a fresh entry is stored, expiring \<open>T\<close> seconds after that instant.
\<close>

theorem C5_expired_entry_is_a_miss:
  assumes first: "fcall (cache_result repr T (pydef n body)) args s = (Inr v, s1)"
    and cold: "\<not> cached s (cache_key repr n args)"
    and elapsed: "T < w"
    and up: "reachable s1 (now s1 + w)"
  shows "(\<exists>b. store (wait w s1) (cache_key repr n args) = Some (b, now s1 + T))
    \<and> invocations (snd (fcall (cache_result repr T (pydef n body)) args (wait w s1)))
        = invocations s1 @ [n]
    \<and> fst (fcall (cache_result repr T (pydef n body)) args (wait w s1))
        = fst (fcall (cache_result repr T (pydef n body)) args
                ((wait w s1)\<lparr>store := (store s1)(cache_key repr n args := None)\<rparr>))
    \<and> (body args (world s1) = (Inr v2, w2, d2) \<and> redis_encode v2 = Some b2
        \<and> reachable s1 (now s1 + w + d2) \<longrightarrow>
          fst (fcall (cache_result repr T (pydef n body)) args (wait w s1)) = Inr v2
          \<and> store (snd (fcall (cache_result repr T (pydef n body)) args (wait w s1)))
               (cache_key repr n args) = Some (b2, now s1 + w + d2 + T))"
proof -
  let ?key = "cache_key repr n args"
  let ?W = "cache_result repr T (pydef n body)"
  from miss_returned [OF first cold] obtain d b where
    now1: "now s1 = now s + d"
    and store1: "store s1 = (store s)(?key \<mapsto> (b, now s + d + T))"
    and pos: "0 < T"
    by auto
  have up2: "reachable (wait w s1) (now (wait w s1))"
    using up by simp
  have stale: "\<not> cached (wait w s1) ?key"
    using store1 now1 elapsed by (simp add: cached_def)
  let ?s2 = "(wait w s1)\<lparr>store := (store s1)(?key := None)\<rparr>"
  have up2': "reachable ?s2 (now ?s2)"
    using up by simp
  have absent: "\<not> cached ?s2 ?key"
    by (simp add: cached_def)
  obtain r2' w2' d2' where b2: "body args (world s1) = (r2', w2', d2')"
    by (cases "body args (world s1)") auto
  then have b2a: "body args (world (wait w s1)) = (r2', w2', d2')"
    and b2b: "body args (world ?s2) = (r2', w2', d2')"
    by simp_all
  have c1: "\<exists>b. store (wait w s1) ?key = Some (b, now s1 + T)"
    using store1 now1 by simp
  have c2: "invocations (snd (fcall ?W args (wait w s1))) = invocations s1 @ [n]"
    using miss_invocations [OF up2 stale] by simp
  have c3: "fst (fcall ?W args (wait w s1)) = fst (fcall ?W args ?s2)"
    unfolding miss_result [where body = body and T = T, OF up2 stale b2a]
      miss_result [where body = body and T = T, OF up2' absent b2b]
    by (cases r2') simp_all
  have c4: "fst (fcall ?W args (wait w s1)) = Inr v2
          \<and> store (snd (fcall ?W args (wait w s1))) ?key = Some (b2, now s1 + w + d2 + T)"
    if h: "body args (world s1) = (Inr v2, w2, d2) \<and> redis_encode v2 = Some b2
        \<and> reachable s1 (now s1 + w + d2)"
  proof -
    from h have "body args (world (wait w s1)) = (Inr v2, w2, d2)"
      and "redis_encode v2 = Some b2"
      and "reachable (wait w s1) (now (wait w s1) + d2)"
      by simp_all
    from miss_stores [where body = body, OF up2 stale this pos] show ?thesis
      by simp
  qed
  from c1 c2 c3 c4 show ?thesis
    by blast
qed


text \<open>
  The specification's scenario: \<^verbatim>\<open>h(x) = x*2\<close>, a time to live of five seconds, a
  call at 3, six seconds of waiting, a call at 3 again.
\<close>

theorem C5_witness:
  "fcall (cache_result show_int 5 (pydef ''h'' double_body)) [3] cold
     = (Inr (PInt 6), snd (fcall (cache_result show_int 5 (pydef ''h'' double_body)) [3] cold))
   \<and> \<not> cached cold (cache_key show_int ''h'' [3])
   \<and> (5::nat) < 6
   \<and> invocations (snd (fcall (cache_result show_int 5 (pydef ''h'' double_body)) [3]
        (wait 6 (snd (fcall (cache_result show_int 5 (pydef ''h'' double_body)) [3] cold)))))
      = [''h'', ''h'']
   \<and> fst (fcall (cache_result show_int 5 (pydef ''h'' double_body)) [3]
        (wait 6 (snd (fcall (cache_result show_int 5 (pydef ''h'' double_body)) [3] cold))))
      = Inr (PInt 6)
   \<and> store (snd (fcall (cache_result show_int 5 (pydef ''h'' double_body)) [3]
        (wait 6 (snd (fcall (cache_result show_int 5 (pydef ''h'' double_body)) [3] cold)))))
        (cache_key show_int ''h'' [3])
      = Some (''6'', 13)"
proof -
  let ?W = "cache_result show_int 5 (pydef ''h'' double_body)"
  have r: "fst (fcall ?W [3] cold) = Inr (PInt 6)"
    by code_simp
  then have first: "fcall ?W [3] cold = (Inr (PInt 6), snd (fcall ?W [3] cold))"
    by (metis prod.collapse)
  have cold: "\<not> cached cold (cache_key show_int ''h'' [3])"
    by (simp add: cached_def cold_def)
  have elapsed: "(5::nat) < 6" by simp
  have up: "reachable (snd (fcall ?W [3] cold)) (now (snd (fcall ?W [3] cold)) + 6)"
    by code_simp
  have again: "double_body [3] (world (snd (fcall ?W [3] cold))) = (Inr (PInt 6), (), 1)
      \<and> redis_encode (PInt 6) = Some ''6''
      \<and> reachable (snd (fcall ?W [3] cold)) (now (snd (fcall ?W [3] cold)) + 6 + 1)"
    by code_simp
  have inv1: "invocations (snd (fcall ?W [3] cold)) = [''h'']"
    by code_simp
  have now1: "now (snd (fcall ?W [3] cold)) = 1"
    by code_simp
  note main = C5_expired_entry_is_a_miss
    [where ?v2.0 = "PInt 6" and ?w2.0 = "()" and ?d2.0 = 1 and ?b2.0 = "''6''",
     OF first cold elapsed up]
  note c2 = main [THEN conjunct2, THEN conjunct1]
  note c4 = main [THEN conjunct2, THEN conjunct2, THEN conjunct2, THEN mp, OF again]
  from c2 c4 first cold inv1 now1
  show ?thesis by simp
qed

text \<open>
  At exactly \<open>T\<close> seconds the claim fails: the server still serves the entry at the
  instant its time to live ends.  With \<^verbatim>\<open>h(x) = x*2\<close> and a time to live of five
  seconds, a call at 3 that comes five seconds after the value was stored is a hit;
  the body has run once in all and the stored bytes come back.
\<close>

theorem C5_counterexample:
  "invocations (snd (fcall (cache_result show_int 5 (pydef ''h'' double_body)) [3]
      (wait 5 (snd (fcall (cache_result show_int 5 (pydef ''h'' double_body)) [3] cold)))))
    = [''h'']
   \<and> fst (fcall (cache_result show_int 5 (pydef ''h'' double_body)) [3]
        (wait 5 (snd (fcall (cache_result show_int 5 (pydef ''h'' double_body)) [3] cold))))
      = Inr (PBytes ''6'')"
  by code_simp

text \<open>
  Claim C10.  Let the key hold empty bytes whose time to live has not run out, the
  server being up.  The lookup is taken for a miss: the body runs.  If it returns a
  value the client can encode (and the server is still up, the time to live
  positive), the value is returned and stored anew.  If the value stored was this
  call's own, encoded as empty bytes, the next call, whenever it comes, runs the body
  once more.  And in any state \<open>s0\<close> a call leaves the body alone exactly when the
  server is out of reach or the key holds live, non-empty bytes.
\<close>

theorem C10_falsy_stored_value_is_a_miss:
  assumes up: "reachable s (now s)"
    and entry: "store s (cache_key repr n args) = Some ([], expires_at)"
    and live: "now s < expires_at"
  shows "invocations (snd (fcall (cache_result repr T (pydef n body)) args s))
        = invocations s @ [n]
    \<and> (body args (world s) = (Inr v, w', d) \<and> redis_encode v = Some b
        \<and> reachable s (now s + d) \<and> 0 < T \<longrightarrow>
          fst (fcall (cache_result repr T (pydef n body)) args s) = Inr v
          \<and> store (snd (fcall (cache_result repr T (pydef n body)) args s))
               (cache_key repr n args) = Some (b, now s + d + T))
    \<and> (b = [] \<and> fcall (cache_result repr T (pydef n body)) args s = (Inr v, s1)
        \<and> redis_encode v = Some b \<and> reachable s1 (now s1 + w) \<longrightarrow>
          invocations (snd (fcall (cache_result repr T (pydef n body)) args (wait w s1)))
            = invocations s @ [n, n])
    \<and> ((invocations (snd (fcall (cache_result repr T (pydef n body)) args s0))
          = invocations s0) = (\<not> reachable s0 (now s0) \<or> cached s0 (cache_key repr n args)))"
proof -
  let ?key = "cache_key repr n args"
  let ?W = "cache_result repr T (pydef n body)"
  have miss: "\<not> cached s ?key"
    using entry by (simp add: cached_def)
  have c1: "invocations (snd (fcall ?W args s)) = invocations s @ [n]"
    using up miss by (rule miss_invocations)
  have c2: "fst (fcall ?W args s) = Inr v
          \<and> store (snd (fcall ?W args s)) ?key = Some (b, now s + d + T)"
    if h: "body args (world s) = (Inr v, w', d) \<and> redis_encode v = Some b
        \<and> reachable s (now s + d) \<and> 0 < T"
  proof -
    from h have "body args (world s) = (Inr v, w', d)" and "redis_encode v = Some b"
      and "reachable s (now s + d)" and "0 < T"
      by simp_all
    from miss_stores [where body = body, OF up miss this] show ?thesis
      by simp
  qed
  have c3: "invocations (snd (fcall ?W args (wait w s1))) = invocations s @ [n, n]"
    if h: "b = [] \<and> fcall ?W args s = (Inr v, s1) \<and> redis_encode v = Some b
        \<and> reachable s1 (now s1 + w)"
  proof -
    from h have first: "fcall ?W args s = (Inr v, s1)" and enc: "redis_encode v = Some []"
      and up1: "reachable (wait w s1) (now (wait w s1))"
      by simp_all
    from miss_returned [OF first miss] enc obtain d' where
      store1: "store s1 = (store s)(?key \<mapsto> ([], now s + d' + T))"
      and inv1: "invocations s1 = invocations s @ [n]"
      by auto
    have "\<not> cached (wait w s1) ?key"
      using store1 by (simp add: cached_def)
    from miss_invocations [OF up1 this] inv1 show ?thesis
      by simp
  qed
  have c4: "(invocations (snd (fcall ?W args s0)) = invocations s0)
      = (\<not> reachable s0 (now s0) \<or> cached s0 ?key)"
  proof (cases "reachable s0 (now s0)")
    case False
    then show ?thesis by (simp add: cache_result_down)
  next
    case True
    show ?thesis
    proof (cases "cached s0 ?key")
      case c: True
      then have "cached s0 (cache_key repr (fname (pydef n body)) args)" by simp
      from hit_invocations [OF True this] True c show ?thesis by simp
    next
      case False
      from miss_invocations [OF True False] True False show ?thesis by simp
    qed
  qed
  from c1 c2 c3 c4 show ?thesis
    by blast
qed


text \<open>
  The theorem at a handler that returns the empty string, in the state its own first
  call has left: the entry is there, live until the sixth second, and empty.
\<close>

theorem C10_witness:
  "reachable (snd (fcall (cache_result show_int 5 (pydef ''h'' blank_body)) [3] cold))
      (now (snd (fcall (cache_result show_int 5 (pydef ''h'' blank_body)) [3] cold)))
   \<and> store (snd (fcall (cache_result show_int 5 (pydef ''h'' blank_body)) [3] cold))
        (cache_key show_int ''h'' [3]) = Some ([], 6)
   \<and> now (snd (fcall (cache_result show_int 5 (pydef ''h'' blank_body)) [3] cold)) < 6
   \<and> invocations (snd (fcall (cache_result show_int 5 (pydef ''h'' blank_body)) [3]
        (snd (fcall (cache_result show_int 5 (pydef ''h'' blank_body)) [3] cold))))
      = [''h'', ''h'']
   \<and> fst (fcall (cache_result show_int 5 (pydef ''h'' blank_body)) [3]
        (snd (fcall (cache_result show_int 5 (pydef ''h'' blank_body)) [3] cold)))
      = Inr (PStr [])
   \<and> store (snd (fcall (cache_result show_int 5 (pydef ''h'' blank_body)) [3]
        (snd (fcall (cache_result show_int 5 (pydef ''h'' blank_body)) [3] cold))))
        (cache_key show_int ''h'' [3])
      = Some ([], 7)"
proof -
  let ?W = "cache_result show_int 5 (pydef ''h'' blank_body)"
  let ?s = "snd (fcall ?W [3] cold)"
  have up: "reachable ?s (now ?s)"
    by code_simp
  have entry: "store ?s (cache_key show_int ''h'' [3]) = Some ([], 6)"
    by code_simp
  have live: "now ?s < 6"
    by code_simp
  have again: "blank_body [3] (world ?s) = (Inr (PStr []), (), 1)
      \<and> redis_encode (PStr []) = Some [] \<and> reachable ?s (now ?s + 1) \<and> (0::nat) < 5"
    by code_simp
  have inv1: "invocations ?s = [''h'']"
    by code_simp
  have now1: "now ?s = 1"
    by code_simp
  note main = C10_falsy_stored_value_is_a_miss
    [where body = blank_body and T = 5 and v = "PStr []" and w' = "()" and d = 1 and b = "[]",
     OF up entry live]
  note c1 = main [THEN conjunct1]
  note c2 = main [THEN conjunct2, THEN conjunct1, THEN mp, OF again]
  from c1 c2 up entry live inv1 now1
  show ?thesis by simp
qed


section \<open>The composed handlers\<close>

lemma fst_performance_metrics:
  "fst (fcall (performance_metrics func) args s) = fst (fcall func args s)"
  by (cases "fcall func args s")
    (simp add: performance_metrics_def Let_def split: sum.splits)

lemma performance_metrics_frame:
  "now (snd (fcall (performance_metrics func) args s)) = now (snd (fcall func args s))"
  "store (snd (fcall (performance_metrics func) args s)) = store (snd (fcall func args s))"
  "reachable (snd (fcall (performance_metrics func) args s))
     = reachable (snd (fcall func args s))"
  "invocations (snd (fcall (performance_metrics func) args s))
     = invocations (snd (fcall func args s))"
  "commands (snd (fcall (performance_metrics func) args s))
     = commands (snd (fcall func args s))"
  "world (snd (fcall (performance_metrics func) args s)) = world (snd (fcall func args s))"
  by (cases "fcall func args s";
      simp add: performance_metrics_def Let_def split: sum.splits)+

lemma pydef_frame:
  "store (snd (fcall (pydef n body) args s)) = store s"
  "commands (snd (fcall (pydef n body) args s)) = commands s"
  "logged (snd (fcall (pydef n body) args s)) = logged s"
  "invocations (snd (fcall (pydef n body) args s)) = invocations s @ [n]"
  "world (snd (fcall (pydef n body) args s)) = fst (snd (body args (world s)))"
  by (simp_all add: pydef_def split: prod.splits)

lemma get_posts_key: "cache_key show_int ''get_posts'' [] = ''get_posts:()''"
  by (simp add: cache_key_def str_tuple_def)

text \<open>
  Claim C6.  Around any function, \<^verbatim>\<open>performance_metrics\<close> returns or raises exactly
  what the function does, and leaves the state the function's single call produced,
  but for the log.  Around a handler given by its body, the body runs once.  The read
  handler \<^verbatim>\<open>get_posts\<close> is the timing decorator around the cache decorator around the
  body; so on a hit, where the body does not run, the log still gets its timing
  record after the record of the hit.
\<close>

theorem C6_instrumentation_is_transparent:
  "fst (fcall (performance_metrics func) args s) = fst (fcall func args s)
   \<and> (snd (fcall (performance_metrics func) args s))
        \<lparr>logged := logged (snd (fcall func args s))\<rparr> = snd (fcall func args s)
   \<and> invocations (snd (fcall (performance_metrics (pydef n body)) args s))
        = invocations s @ [n]
   \<and> get_posts
        = performance_metrics (cache_result show_int 120 (pydef ''get_posts'' get_posts_body))
   \<and> (reachable a (now a) \<and> store a ''get_posts:()'' = Some (b, expires_at)
        \<and> now a < expires_at \<and> b \<noteq> [] \<longrightarrow>
         fcall get_posts [] a =
           (Inr (PBytes b),
            a\<lparr>commands := commands a @ [GET ''get_posts:()''],
              logged := logged a @ [CacheHit ''get_posts'' ''()'',
                                    ExecutionTime ''get_posts'' 0]\<rparr>))"
proof (intro conjI impI)
  show "fst (fcall (performance_metrics func) args s) = fst (fcall func args s)"
    by (rule fst_performance_metrics)
  show "(snd (fcall (performance_metrics func) args s))
        \<lparr>logged := logged (snd (fcall func args s))\<rparr> = snd (fcall func args s)"
    by (cases "fcall func args s")
      (simp add: performance_metrics_def Let_def split: sum.splits)
  show "invocations (snd (fcall (performance_metrics (pydef n body)) args s))
        = invocations s @ [n]"
    by (simp add: performance_metrics_frame pydef_frame)
  show "get_posts
        = performance_metrics (cache_result show_int 120 (pydef ''get_posts'' get_posts_body))"
    by (simp add: get_posts_def)
next
  assume h: "reachable a (now a) \<and> store a ''get_posts:()'' = Some (b, expires_at)
        \<and> now a < expires_at \<and> b \<noteq> []"
  let ?f = "pydef ''get_posts'' (get_posts_body :: (int, app) body)"
  from h have "reachable a (now a)"
    and "store a (cache_key show_int (fname ?f) []) = Some (b, expires_at)"
    and "now a \<le> expires_at" and "b \<noteq> []"
    by (simp_all add: get_posts_key)
  from cache_result_hit [where T = 120, OF this]
  show "fcall get_posts [] a =
           (Inr (PBytes b),
            a\<lparr>commands := commands a @ [GET ''get_posts:()''],
              logged := logged a @ [CacheHit ''get_posts'' ''()'',
                                    ExecutionTime ''get_posts'' 0]\<rparr>)"
    by (simp add: get_posts_def performance_metrics_def get_posts_key str_tuple_def)
qed

text \<open>The hit of \<^verbatim>\<open>get_posts\<close> in the state \<open>warm_app\<close>.\<close>

theorem C6_witness:
  "reachable warm_app (now warm_app)
   \<and> store warm_app ''get_posts:()'' = Some (''[]'', 100)
   \<and> now warm_app < 100
   \<and> fst (fcall get_posts [] warm_app) = Inr (PBytes ''[]'')
   \<and> logged (snd (fcall get_posts [] warm_app))
       = [CacheHit ''get_posts'' ''()'', ExecutionTime ''get_posts'' 0]
   \<and> invocations (snd (fcall get_posts [] warm_app)) = []"
proof -
  have h: "reachable warm_app (now warm_app)
      \<and> store warm_app ''get_posts:()'' = Some (''[]'', 100)
      \<and> now warm_app < 100 \<and> ''[]'' \<noteq> []"
    by (simp add: warm_app_def sample_app_def)
  have l: "logged warm_app = []" "invocations warm_app = []"
    by (simp_all add: warm_app_def sample_app_def)
  note main = C6_instrumentation_is_transparent [where a = warm_app and b = "''[]''"
      and expires_at = 100]
  note c5 = main [THEN conjunct2, THEN conjunct2, THEN conjunct2, THEN conjunct2, THEN mp, OF h]
  from c5 h l show ?thesis by simp
qed


lemma add_post_body_threads:
  assumes "add_post_body args w = (r, w1, d)" and "threads w1 \<noteq> threads w"
  shows "\<exists>req.
      request_json w = Some req
      \<and> r = Inr (PResponse (JObj [(''message'', JStr ''Post added'')]) 201)
      \<and> commit_post (json_get req ''user_id'') (json_get req ''content'') w
          = Inr (w1\<lparr>threads := threads w\<rparr>)
      \<and> posts w1 = posts w @ [\<lparr>p_id = next_id (map p_id (posts w)),
                                p_user_id = json_get req ''user_id'',
                                p_content = json_get req ''content''\<rparr>]
      \<and> threads w1 = threads w @ [(''long_running_task'', [json_get req ''user_id''])]"
proof (cases "request_json w")
  case None
  with assms show ?thesis
    by (auto simp add: add_post_body_def split: if_splits)
next
  case (Some req)
  show ?thesis
  proof (cases "commit_post (json_get req ''user_id'') (json_get req ''content'') w")
    case (Inl e)
    with assms Some show ?thesis
      by (auto simp add: add_post_body_def Let_def split: if_splits)
  next
    case (Inr w')
    then have "posts w' = posts w @ [\<lparr>p_id = next_id (map p_id (posts w)),
                                p_user_id = json_get req ''user_id'',
                                p_content = json_get req ''content''\<rparr>]"
      and "threads w' = threads w"
      by (auto simp add: commit_post_def split: if_splits)
    with assms Some Inr show ?thesis
      by (auto simp add: add_post_body_def Let_def split: if_splits)
  qed
qed

text \<open>
  Claim C7.  The two handlers that write are the timing decorator around the body,
  with no cache decorator.  Whatever the request, a call of either leaves the
  contents of the cache as they were and sends the server no command.  And if
  \<^verbatim>\<open>add_post\<close> has started a thread, the commit went through before: the request
  had a JSON body, the new row is in the table of posts, the thread is the one of
  \<^verbatim>\<open>long_running_task\<close> with the post's user, and the handler returns its 201
  response.
\<close>

theorem C7_writes_leave_the_cache_alone:
  "add_user = performance_metrics (pydef ''add_user'' add_user_body)
   \<and> add_post = performance_metrics (pydef ''add_post'' add_post_body)
   \<and> store (snd (fcall add_user args s)) = store s
   \<and> commands (snd (fcall add_user args s)) = commands s
   \<and> store (snd (fcall add_post args s)) = store s
   \<and> commands (snd (fcall add_post args s)) = commands s
   \<and> (threads (world (snd (fcall add_post args s))) \<noteq> threads (world s) \<longrightarrow>
        (\<exists>req.
           request_json (world s) = Some req
           \<and> fst (fcall add_post args s)
               = Inr (PResponse (JObj [(''message'', JStr ''Post added'')]) 201)
           \<and> posts (world (snd (fcall add_post args s)))
               = posts (world s) @ [\<lparr>p_id = next_id (map p_id (posts (world s))),
                                        p_user_id = json_get req ''user_id'',
                                        p_content = json_get req ''content''\<rparr>]
           \<and> threads (world (snd (fcall add_post args s)))
               = threads (world s) @ [(''long_running_task'', [json_get req ''user_id''])]))"
proof (intro conjI impI)
  show "add_user = performance_metrics (pydef ''add_user'' add_user_body)"
    by (simp add: add_user_def)
  show "add_post = performance_metrics (pydef ''add_post'' add_post_body)"
    by (simp add: add_post_def)
  show "store (snd (fcall add_user args s)) = store s"
    by (simp add: add_user_def performance_metrics_frame pydef_frame)
  show "commands (snd (fcall add_user args s)) = commands s"
    by (simp add: add_user_def performance_metrics_frame pydef_frame)
  show "store (snd (fcall add_post args s)) = store s"
    by (simp add: add_post_def performance_metrics_frame pydef_frame)
  show "commands (snd (fcall add_post args s)) = commands s"
    by (simp add: add_post_def performance_metrics_frame pydef_frame)
next
  assume changed: "threads (world (snd (fcall add_post args s))) \<noteq> threads (world s)"
  obtain r w1 d where b: "add_post_body args (world s) = (r, w1, d)"
    by (cases "add_post_body args (world s)") auto
  have w: "world (snd (fcall add_post args s)) = w1"
    by (simp add: add_post_def performance_metrics_frame pydef_frame b)
  have f: "fst (fcall add_post args s) = r"
    by (simp add: add_post_def fst_performance_metrics pydef_def b)
  from changed w have "threads w1 \<noteq> threads (world s)"
    by simp
  from add_post_body_threads [OF b this] w f
  show "\<exists>req.
           request_json (world s) = Some req
           \<and> fst (fcall add_post args s)
               = Inr (PResponse (JObj [(''message'', JStr ''Post added'')]) 201)
           \<and> posts (world (snd (fcall add_post args s)))
               = posts (world s) @ [\<lparr>p_id = next_id (map p_id (posts (world s))),
                                        p_user_id = json_get req ''user_id'',
                                        p_content = json_get req ''content''\<rparr>]
           \<and> threads (world (snd (fcall add_post args s)))
               = threads (world s) @ [(''long_running_task'', [json_get req ''user_id''])]"
    by auto
qed

text \<open>A post added in the state \<open>sample_app\<close>.\<close>

theorem C7_witness:
  "threads (world (snd (fcall add_post [] sample_app))) = [(''long_running_task'', [JInt 1])]
   \<and> threads (world sample_app) = []
   \<and> posts (world (snd (fcall add_post [] sample_app)))
       = [\<lparr>p_id = 1, p_user_id = JInt 1, p_content = JStr ''hello''\<rparr>]
   \<and> store (snd (fcall add_post [] sample_app)) = store sample_app
   \<and> commands (snd (fcall add_post [] sample_app)) = []"
proof -
  have t1: "threads (world (snd (fcall add_post [] sample_app)))
      = [(''long_running_task'', [JInt 1])]"
    by code_simp
  have t0: "threads (world sample_app) = []"
    by code_simp
  have p0: "posts (world sample_app) = []" and c0: "commands sample_app = []"
    and r0: "request_json (world sample_app)
       = Some [(''user_id'', JInt 1), (''content'', JStr ''hello'')]"
    by (simp_all add: sample_app_def)
  have changed: "threads (world (snd (fcall add_post [] sample_app)))
      \<noteq> threads (world sample_app)"
    by (simp add: t1 t0)
  note main = C7_writes_leave_the_cache_alone [where args = "[]" and s = sample_app]
  note frame = main [THEN conjunct2, THEN conjunct2, THEN conjunct2, THEN conjunct2]
  note c5 = frame [THEN conjunct1]
  note c6 = frame [THEN conjunct2, THEN conjunct1]
  note c7 = frame [THEN conjunct2, THEN conjunct2, THEN mp, OF changed]
  from c7 p0 r0 have "posts (world (snd (fcall add_post [] sample_app)))
       = [\<lparr>p_id = 1, p_user_id = JInt 1, p_content = JStr ''hello''\<rparr>]"
    by (auto simp add: next_id_def json_get_def)
  with c5 c6 t1 t0 c0 show ?thesis
    by simp
qed


section \<open>The cache key\<close>

text \<open>
  The decimal numeral of a number determines the number, and holds digits only, all
  of them at or above the character \<^verbatim>\<open>0\<close>; a minus sign comes first or not at all.
\<close>

lemma of_char_digit: "k < 10 \<Longrightarrow> of_char (char_of (48 + k)) = (48 + k :: nat)"
  by (simp add: of_char_of)

lemma digit_inj:
  assumes "j < 10" and "k < 10" and "char_of (48 + j) = char_of (48 + k)"
  shows "j = (k::nat)"
proof -
  have "(of_char (char_of (48 + j)) :: nat) = of_char (char_of (48 + k))"
    using assms(3) by simp
  then show ?thesis
    using assms(1,2) by (simp add: of_char_digit)
qed

lemma show_nat_low:
  "c \<in> set (show_nat n) \<Longrightarrow> 48 \<le> (of_char c :: nat)"
proof (induction n rule: show_nat.induct)
  case (1 n)
  show ?case
  proof (cases "n < 10")
    case True
    with "1.prems" show ?thesis
      by (auto simp add: show_nat.simps [of n] of_char_digit)
  next
    case False
    with "1.prems" "1.IH" show ?thesis
      by (auto simp add: show_nat.simps [of n] of_char_digit)
  qed
qed

lemma show_nat_nonempty: "show_nat n \<noteq> []"
  by (subst show_nat.simps) simp

lemma show_nat_inj: "show_nat n = show_nat m \<Longrightarrow> n = m"
proof (induction n arbitrary: m rule: show_nat.induct)
  case (1 n)
  show ?case
  proof (cases "n < 10")
    case n: True
    show ?thesis
    proof (cases "m < 10")
      case True
      with n "1.prems" show ?thesis
        by (auto simp add: show_nat.simps [of n] show_nat.simps [of m] dest: digit_inj)
    next
      case False
      with n "1.prems" show_nat_nonempty [of "m div 10"] show ?thesis
        by (auto simp add: show_nat.simps [of n] show_nat.simps [of m]
            append_eq_Cons_conv)
    qed
  next
    case n: False
    show ?thesis
    proof (cases "m < 10")
      case True
      with n "1.prems" show_nat_nonempty [of "n div 10"] show ?thesis
        by (auto simp add: show_nat.simps [of n] show_nat.simps [of m]
            Cons_eq_append_conv append_eq_Cons_conv)
    next
      case False
      with n "1.prems" have parts: "show_nat (n div 10) = show_nat (m div 10)"
        and last: "char_of (48 + n mod 10) = (char_of (48 + m mod 10) :: char)"
        by (auto simp add: show_nat.simps [of n] show_nat.simps [of m])
      from "1.IH" [OF n parts] have "n div 10 = m div 10" .
      moreover from last have "n mod 10 = m mod 10"
        by (rule digit_inj [rotated 2]) simp_all
      ultimately show ?thesis
        by (metis div_mult_mod_eq)
    qed
  qed
qed

lemma show_int_low:
  "c \<in> set (show_int i) \<Longrightarrow> 45 \<le> (of_char c :: nat)"
  by (auto simp add: show_int_def dest: show_nat_low split: if_splits)

lemma show_int_clean:
  "CHR '','' \<notin> set (show_int i)" "CHR '')'' \<notin> set (show_int i)"
  using show_int_low [of "CHR '',''" i] show_int_low [of "CHR '')''" i]
  by auto

lemma show_int_inj: "show_int i = show_int j \<Longrightarrow> i = j"
proof -
  assume eq: "show_int i = show_int j"
  have minus: "CHR ''-'' \<notin> set (show_nat n)" for n
    using show_nat_low [of "CHR ''-''" n] by auto
  have hd: "show_nat n \<noteq> CHR ''-'' # cs" for n cs
    using minus [of n] by auto
  show "i = j"
  proof (cases "i < 0")
    case True
    with eq hd [of "nat j" "show_nat (nat (- i))"] have "j < 0"
      by (auto simp add: show_int_def split: if_splits)
    with True eq have "nat (- i) = nat (- j)"
      by (auto simp add: show_int_def dest: show_nat_inj)
    with True \<open>j < 0\<close> show ?thesis by simp
  next
    case False
    with eq hd [of "nat i" "show_nat (nat (- j))"] have "\<not> j < 0"
      by (auto simp add: show_int_def split: if_splits)
    with False eq have "nat i = nat j"
      by (auto simp add: show_int_def dest: show_nat_inj)
    with False \<open>\<not> j < 0\<close> show ?thesis by simp
  qed
qed


text \<open>
  Two strings free of the characters of \<open>S\<close>, each followed by a character of \<open>S\<close>:
  if the wholes agree, so do the parts.
\<close>

lemma split_unique:
  assumes "set u \<inter> S = {}" and "set v \<inter> S = {}" and "a \<in> S" and "b \<in> S"
    and "u @ a # r = v @ b # r'"
  shows "u = v \<and> a = b \<and> r = r'"
  using assms
proof (induction u arbitrary: v)
  case Nil
  then show ?case by (cases v) auto
next
  case (Cons c u)
  then show ?case by (cases v) auto
qed

lemma join_inj:
  assumes "\<forall>x \<in> set xs. set x \<inter> {CHR '','', CHR '')''} = {}"
    and "\<forall>y \<in> set ys. set y \<inter> {CHR '','', CHR '')''} = {}"
    and "xs \<noteq> []" and "ys \<noteq> []"
    and "join '', '' xs @ '')'' = join '', '' ys @ '')''"
  shows "xs = ys"
  using assms
proof (induction xs arbitrary: ys rule: induct_list012)
  case 1
  then show ?case by simp
next
  case (2 x)
  from "2.prems"(4) obtain y ys' where ys: "ys = y # ys'"
    by (cases ys) auto
  from "2.prems"(1) have cx: "set x \<inter> {CHR '','', CHR '')''} = {}"
    by simp
  from "2.prems"(2) ys have cy: "set y \<inter> {CHR '','', CHR '')''} = {}"
    by simp
  show ?case
  proof (cases ys')
    case Nil
    from "2.prems"(5) have "x = y"
      unfolding ys Nil by simp
    then show ?thesis
      unfolding ys Nil by simp
  next
    case (Cons y' ys'')
    from "2.prems"(5)
    have eq: "x @ CHR '')'' # [] = y @ CHR '','' # (CHR '' '' # join '', '' (y' # ys'') @ '')'')"
      unfolding ys Cons by simp
    have "x = y \<and> CHR '')'' = CHR '','' \<and> [] = CHR '' '' # join '', '' (y' # ys'') @ '')''"
      by (rule split_unique [OF cx cy _ _ eq]) simp_all
    then show ?thesis by simp
  qed
next
  case (3 x x' xs')
  from "3.prems"(4) obtain y ys' where ys: "ys = y # ys'"
    by (cases ys) auto
  from "3.prems"(1) have cx: "set x \<inter> {CHR '','', CHR '')''} = {}"
    by simp
  from "3.prems"(2) ys have cy: "set y \<inter> {CHR '','', CHR '')''} = {}"
    by simp
  show ?case
  proof (cases ys')
    case Nil
    from "3.prems"(5)
    have eq: "x @ CHR '','' # (CHR '' '' # join '', '' (x' # xs') @ '')'') = y @ CHR '')'' # []"
      unfolding ys Nil by simp
    have "x = y \<and> CHR '','' = CHR '')'' \<and> CHR '' '' # join '', '' (x' # xs') @ '')'' = []"
      by (rule split_unique [OF cx cy _ _ eq]) simp_all
    then show ?thesis by simp
  next
    case (Cons y' ys'')
    from "3.prems"(5)
    have eq: "x @ CHR '','' # (CHR '' '' # join '', '' (x' # xs') @ '')'')
        = y @ CHR '','' # (CHR '' '' # join '', '' (y' # ys'') @ '')'')"
      unfolding ys Cons by simp
    have "x = y \<and> CHR '','' = CHR '',''
        \<and> CHR '' '' # join '', '' (x' # xs') @ '')'' = CHR '' '' # join '', '' (y' # ys'') @ '')''"
      by (rule split_unique [OF cx cy _ _ eq]) simp_all
    then have xy: "x = y"
      and rest: "join '', '' (x' # xs') @ '')'' = join '', '' (y' # ys'') @ '')''"
      by simp_all
    have c1: "\<forall>u \<in> set (x' # xs'). set u \<inter> {CHR '','', CHR '')''} = {}"
      using "3.prems"(1) by simp
    have c2: "\<forall>u \<in> set (y' # ys''). set u \<inter> {CHR '','', CHR '')''} = {}"
      using "3.prems"(2) unfolding ys Cons by simp
    have "x' # xs' = y' # ys''"
      by (rule "3.IH"(2) [OF c1 c2 _ _ rest]) simp_all
    with xy show ?thesis
      unfolding ys Cons by simp
  qed
qed

text \<open>
  The printed tuple determines the tuple, for any class of elements whose \<^verbatim>\<open>repr\<close>
  determines the element and holds neither a comma nor a closing parenthesis.
\<close>

lemma str_tuple_inj:
  assumes clean: "\<And>x. set (repr x) \<inter> {CHR '','', CHR '')''} = {}"
    and inj: "\<And>x y. repr x = repr y \<Longrightarrow> x = y"
    and eq: "str_tuple repr xs = str_tuple repr ys"
  shows "xs = ys"
proof -
  have one_many: False
    if h: "str_tuple repr [x] = str_tuple repr (y # y' # ys')" for x y y' ys'
  proof -
    from h have e: "repr x @ CHR '','' # '')''
        = repr y @ CHR '','' # (CHR '' '' # join '', '' (map repr (y' # ys')) @ '')'')"
      by (simp add: str_tuple_def)
    have "repr x = repr y \<and> CHR '','' = CHR '',''
        \<and> '')'' = CHR '' '' # join '', '' (map repr (y' # ys')) @ '')''"
      by (rule split_unique [OF clean clean _ _ e]) simp_all
    then show False by simp
  qed
  have none_some: False if h: "str_tuple repr [] = str_tuple repr (y # ys')" for y ys'
  proof -
    from h obtain r where e: "[] @ CHR '')'' # [] = repr y @ CHR '','' # r"
      by (cases ys') (auto simp add: str_tuple_def)
    have "[] = repr y \<and> CHR '')'' = CHR '','' \<and> [] = r"
      by (rule split_unique [OF _ clean _ _ e]) simp_all
    then show False by simp
  qed
  have many: "x # x' # xs' = y # y' # ys'"
    if h: "str_tuple repr (x # x' # xs') = str_tuple repr (y # y' # ys')"
    for x x' xs' y y' ys'
  proof -
    from h have e: "join '', '' (map repr (x # x' # xs')) @ '')''
        = join '', '' (map repr (y # y' # ys')) @ '')''"
      by (simp add: str_tuple_def)
    have c1: "\<forall>u \<in> set (map repr (x # x' # xs')). set u \<inter> {CHR '','', CHR '')''} = {}"
      using clean by (simp del: join.simps)
    have c2: "\<forall>u \<in> set (map repr (y # y' # ys')). set u \<inter> {CHR '','', CHR '')''} = {}"
      using clean by (simp del: join.simps)
    have m: "map repr (x # x' # xs') = map repr (y # y' # ys')"
      by (rule join_inj [OF c1 c2 _ _ e]) simp_all
    have "inj repr"
      using inj by (auto intro: injI)
    with m show ?thesis
      by (simp only: inj_map_eq_map)
  qed
  show ?thesis
  proof (cases xs)
    case Nil
    show ?thesis
    proof (cases ys)
      case ys: Nil
      with Nil show ?thesis by simp
    next
      case (Cons y ys')
      from eq none_some [of y ys'] show ?thesis
        unfolding Nil Cons by simp
    qed
  next
    case xs: (Cons x xs')
    show ?thesis
    proof (cases ys)
      case Nil
      from eq none_some [of x xs'] show ?thesis
        unfolding xs Nil by simp
    next
      case ys: (Cons y ys')
      show ?thesis
      proof (cases xs')
        case Nil
        show ?thesis
        proof (cases ys')
          case ys': Nil
          from eq have "repr x = repr y"
            unfolding xs ys Nil ys' by (simp add: str_tuple_def)
          then have "x = y" by (rule inj)
          then show ?thesis
            unfolding xs ys Nil ys' by simp
        next
          case (Cons y' ys'')
          from eq one_many [of x y y' ys''] show ?thesis
            unfolding xs ys Nil Cons by simp
        qed
      next
        case xs': (Cons x' xs'')
        show ?thesis
        proof (cases ys')
          case Nil
          from eq one_many [of y x x' xs''] show ?thesis
            unfolding xs ys xs' Nil by simp
        next
          case (Cons y' ys'')
          from eq show ?thesis
            unfolding xs ys xs' Cons by (rule many)
        qed
      qed
    qed
  qed
qed


text \<open>The printed tuple is made of the printed elements and of nothing else.\<close>

lemma str_tuple_printed:
  "str_tuple repr args =
     (case map repr args of
        [r] \<Rightarrow> ''('' @ r @ '',)''
      | rs \<Rightarrow> ''('' @ join '', '' rs @ '')'')"
  by (simp add: str_tuple_def split: list.splits)

text \<open>
  Claim C8, as the code has it.  The key is the handler's name, a colon and the
  printed argument tuple.  So it is a function of the name and of what \<^verbatim>\<open>repr\<close>
  prints for each argument, in order: two calls of one handler whose arguments print
  alike, position by position, have the same key.  For arguments that are integers
  the key determines the tuple: two tuples have the same key exactly when they are
  the same tuple, element by element and in order, and two different integers passed
  in the two possible orders give two different keys.
\<close>

theorem C8_key_follows_the_printed_arguments:
  "(map repr xs = map repr ys \<longrightarrow> cache_key repr name xs = cache_key repr name ys)
   \<and> ((cache_key show_int name is = cache_key show_int name js) = (is = js))
   \<and> (a \<noteq> b \<longrightarrow> cache_key show_int name [a, b] \<noteq> cache_key show_int name [b, a])"
proof -
  have clean: "set (show_int x) \<inter> {CHR '','', CHR '')''} = {}" for x
    using show_int_clean [of x] by auto
  have inj: "xs' = ys'" if "cache_key show_int name xs' = cache_key show_int name ys'"
    for xs' ys'
  proof -
    from that have "str_tuple show_int xs' = str_tuple show_int ys'"
      by (simp add: cache_key_def)
    show ?thesis
    proof (rule str_tuple_inj)
      show "set (show_int x) \<inter> {CHR '','', CHR '')''} = {}" for x
        by (rule clean)
      show "x = y" if "show_int x = show_int y" for x y
        using that by (rule show_int_inj)
      show "str_tuple show_int xs' = str_tuple show_int ys'"
        by fact
    qed
  qed
  have c1: "cache_key repr name xs = cache_key repr name ys" if "map repr xs = map repr ys"
    using that by (simp add: cache_key_def str_tuple_printed)
  have c2: "(cache_key show_int name is = cache_key show_int name js) = (is = js)"
    using inj by blast
  have c3: "cache_key show_int name [a, b] \<noteq> cache_key show_int name [b, a]"
    if "a \<noteq> b"
    using inj [of "[a, b]" "[b, a]"] that by auto
  from c1 c2 c3 show ?thesis by blast
qed

text \<open>
  The first part at two objects that print alike, the last at the calls
  \<^verbatim>\<open>h(1, 2)\<close> and \<^verbatim>\<open>h(2, 1)\<close>.
\<close>

theorem C8_witness:
  "map py_repr [AObj 1 ''K()'', AObj 2 ''K()''] = map py_repr [AObj 2 ''K()'', AObj 1 ''K()'']
   \<and> cache_key py_repr ''h'' [AObj 1 ''K()'', AObj 2 ''K()'']
       = cache_key py_repr ''h'' [AObj 2 ''K()'', AObj 1 ''K()'']
   \<and> (1::int) \<noteq> 2
   \<and> cache_key show_int ''h'' [1, 2] = ''h:(1, 2)''
   \<and> cache_key show_int ''h'' [2, 1] = ''h:(2, 1)''
   \<and> cache_key show_int ''h'' [1, 2] \<noteq> cache_key show_int ''h'' [2, 1]"
proof -
  have same: "map py_repr [AObj 1 ''K()'', AObj 2 ''K()'']
      = map py_repr [AObj 2 ''K()'', AObj 1 ''K()'']"
    by simp
  have ne: "(1::int) \<noteq> 2" by simp
  have k1: "cache_key show_int ''h'' [1, 2] = ''h:(1, 2)''" by code_simp
  have k2: "cache_key show_int ''h'' [2, 1] = ''h:(2, 1)''" by code_simp
  note main = C8_key_follows_the_printed_arguments
  note c1 = main [where repr = py_repr and name = "''h''", THEN conjunct1, THEN mp, OF same]
  note c3 = main [where a = 1 and b = 2 and name = "''h''",
      THEN conjunct2, THEN conjunct2, THEN mp, OF ne]
  from c1 c3 same ne k1 k2 show ?thesis by simp
qed

text \<open>
  For every argument tuple the claim fails, in both halves.  The dicts
  \<^verbatim>\<open>{1: 2, 3: 4}\<close> and \<^verbatim>\<open>{3: 4, 1: 2}\<close> are equal by value and get two keys.
  Two distinct objects of a class whose \<^verbatim>\<open>__repr__\<close> returns \<^verbatim>\<open>K()\<close> get one key in
  either order.
\<close>

theorem C8_counterexample:
  "py_eq (ADict [(1, 2), (3, 4)]) (ADict [(3, 4), (1, 2)])
   \<and> cache_key py_repr ''h'' [ADict [(1, 2), (3, 4)]] = ''h:({1: 2, 3: 4},)''
   \<and> cache_key py_repr ''h'' [ADict [(3, 4), (1, 2)]] = ''h:({3: 4, 1: 2},)''
   \<and> \<not> py_eq (AObj 1 ''K()'') (AObj 2 ''K()'')
   \<and> cache_key py_repr ''h'' [AObj 1 ''K()'', AObj 2 ''K()''] = ''h:(K(), K())''
   \<and> cache_key py_repr ''h'' [AObj 2 ''K()'', AObj 1 ''K()''] = ''h:(K(), K())''"
  by code_simp

end
